theory Spec2Isabelle
  imports Complex_Main
begin


section \<open>JavaScript strings and object literals\<close>

text \<open>
  Strings are lists of 8-bit characters. The model of \<^verbatim>\<open>toLowerCase\<close> folds the
  letters A to Z and leaves every other character as it is, and \<^verbatim>\<open>\s\<close> is the
  ASCII white space (tab, line feed, vertical tab, form feed, carriage return, space):
  the development is about ASCII text.
\<close>

definition upper_lower :: "(char \<times> char) list" where
  "upper_lower = zip ''ABCDEFGHIJKLMNOPQRSTUVWXYZ'' ''abcdefghijklmnopqrstuvwxyz''"

definition toLowerCase_char :: "char \<Rightarrow> char" where
  "toLowerCase_char c = (case map_of upper_lower c of Some d \<Rightarrow> d | None \<Rightarrow> c)"

definition toLowerCase :: "string \<Rightarrow> string" where
  "toLowerCase s = map toLowerCase_char s"

definition isWhiteSpace :: "char \<Rightarrow> bool" where
  "isWhiteSpace c = (c \<in> set [CHR 0x09, CHR 0x0A, CHR 0x0B, CHR 0x0C, CHR 0x0D, CHR '' ''])"

text \<open>\<^verbatim>\<open>s.trim()\<close>: white space removed at both ends.\<close>

definition trim :: "string \<Rightarrow> string" where
  "trim s = rev (dropWhile isWhiteSpace (rev (dropWhile isWhiteSpace s)))"

text \<open>
  \<^verbatim>\<open>s.split(/\s+/)\<close>: the string is cut at every maximal run of white space. A run
  at the start or at the end leaves an empty string there, and the empty string splits
  into one empty string.
\<close>

fun split_ws :: "string \<Rightarrow> string list" where
  "split_ws [] = [[]]"
| "split_ws (c # cs) =
     (if isWhiteSpace c
      then (if cs \<noteq> [] \<and> isWhiteSpace (hd cs) then split_ws cs else [] # split_ws cs)
      else (case split_ws cs of
              [] \<Rightarrow> [[c]]
            | w # ws \<Rightarrow> (c # w) # ws))"

text \<open>\<^verbatim>\<open>s.startsWith(p)\<close> and \<^verbatim>\<open>s.includes(q)\<close> (\<open>includes\<close> is a reserved word of
  Isabelle, hence the suffix).\<close>

fun startsWith :: "string \<Rightarrow> string \<Rightarrow> bool" where
  "startsWith s [] = True"
| "startsWith [] (p # ps) = False"
| "startsWith (c # cs) (p # ps) = (c = p \<and> startsWith cs ps)"

fun includes_str :: "string \<Rightarrow> string \<Rightarrow> bool" where
  "includes_str [] q = (q = [])"
| "includes_str (c # cs) q = (startsWith (c # cs) q \<or> includes_str cs q)"

text \<open>
  A property read \<^verbatim>\<open>obj[key]\<close> on an object literal finds the literal's own
  properties first and then the members every plain object inherits from
  \<^verbatim>\<open>Object.prototype\<close>; only a key found in neither place reads
  \<^verbatim>\<open>undefined\<close>. An inherited member is a function or an object: it is truthy,
  and it is neither an array nor an image.
\<close>

datatype 'a js_prop = Own 'a | Inherited string | Undefined

definition object_prototype_keys :: "string list" where
  "object_prototype_keys =
     [''constructor'', ''__proto__'', ''hasOwnProperty'', ''isPrototypeOf'',
      ''propertyIsEnumerable'', ''toLocaleString'', ''toString'', ''valueOf'',
      ''__defineGetter__'', ''__defineSetter__'', ''__lookupGetter__'',
      ''__lookupSetter__'']"

definition js_get :: "(string \<times> 'a) list \<Rightarrow> string \<Rightarrow> 'a js_prop" where
  "js_get obj k =
     (case map_of obj k of
        Some v \<Rightarrow> Own v
      | None \<Rightarrow> if k \<in> set object_prototype_keys then Inherited k else Undefined)"

datatype js_error = TypeError

text \<open>
  A JavaScript \<^verbatim>\<open>Set\<close> of strings or identifiers is a list without repetition, in
  insertion order: \<^verbatim>\<open>has\<close> is membership, \<^verbatim>\<open>size\<close> the length,
  \<^verbatim>\<open>add\<close> appends an element that is not yet there.
\<close>

definition set_add :: "'a \<Rightarrow> 'a list \<Rightarrow> 'a list" where
  "set_add x S = (if x \<in> set S then S else S @ [x])"

definition new_Set :: "'a list \<Rightarrow> 'a list" where
  "new_Set xs = fold set_add xs []"

section \<open>Entities and the filter tables (MapScreen.tsx)\<close>

datatype utility_id = NumId int | StrId string

text \<open>
  The fields of a \<^verbatim>\<open>Utility\<close> the map screen reads. The text fields are optional:
  \<open>None\<close> is a field that is \<^verbatim>\<open>undefined\<close> or \<^verbatim>\<open>null\<close>, which the source
  guards with \<^verbatim>\<open>?.\<close> and \<^verbatim>\<open>&&\<close>. Coordinates are the numeric values of the
  floats (not NaN); the model only compares them.
\<close>

record utility =
  uid :: utility_id
  name :: "string option"
  category :: "string option"
  utype :: "string option"
  address :: "string option"
  description :: "string option"
  latitude :: real
  longitude :: real

definition SEARCH_SYNONYMS :: "(string \<times> string list) list" where
  "SEARCH_SYNONYMS =
  [(''water'', [''water_fountain'', ''water'', ''handwashing'']),
   (''drink'', [''water_fountain'', ''water'']),
   (''fountain'', [''water_fountain'']),
   (''hydration'', [''water_fountain'', ''water'']),
   (''restroom'', [''restroom'']),
   (''bathroom'', [''restroom'']),
   (''toilet'', [''restroom'']),
   (''wc'', [''restroom'']),
   (''lavatory'', [''restroom'']),
   (''food'', [''free_food'', ''food'']),
   (''eat'', [''free_food'', ''food'']),
   (''meal'', [''free_food'', ''food'']),
   (''hungry'', [''free_food'', ''food'']),
   (''grocery'', [''free_food'', ''food'']),
   (''snap'', [''usda_snap_office'', ''free_food'', ''food'']),
   (''wic'', [''usda_wic_office'']),
   (''shelter'', [''shelter'', ''hurricane_shelter'', ''warming_center'', ''cooling_center'']),
   (''housing'', [''shelter'']),
   (''sleep'', [''shelter'']),
   (''bed'', [''shelter'']),
   (''homeless'', [''shelter'', ''homeless_health_center'']),
   (''warm'', [''warming_center'']),
   (''cool'', [''cooling_center'']),
   (''health'', [''health_center'', ''community_health_center'', ''migrant_health_center'', ''homeless_health_center'', ''public_housing_health_center'', ''school_based_health_center'', ''federally_qualified_health_center'', ''clinic'', ''medical'']),
   (''doctor'', [''health_center'', ''community_health_center'', ''clinic'', ''medical'']),
   (''clinic'', [''clinic'', ''medical'', ''health_center'', ''community_health_center'']),
   (''medical'', [''medical'', ''clinic'', ''health_center'', ''community_health_center'', ''va_medical_center'']),
   (''hospital'', [''medical'', ''clinic'', ''health_center'']),
   (''dental'', [''dental'']),
   (''dentist'', [''dental'']),
   (''teeth'', [''dental'']),
   (''eye'', [''eye_care'']),
   (''vision'', [''eye_care'']),
   (''glasses'', [''eye_care'']),
   (''mental'', [''mental_health'', ''suicide_prevention'']),
   (''therapy'', [''mental_health'']),
   (''counseling'', [''mental_health'']),
   (''crisis'', [''suicide_prevention'', ''mental_health'']),
   (''suicide'', [''suicide_prevention'']),
   (''addiction'', [''addiction_services'']),
   (''rehab'', [''addiction_services'']),
   (''drug'', [''addiction_services'', ''needle_exchange'', ''safe_injection'']),
   (''sober'', [''addiction_services'']),
   (''domestic'', [''domestic_violence'']),
   (''abuse'', [''domestic_violence'']),
   (''va'', [''va_facility'', ''va_medical_center'', ''va_outpatient_clinic'', ''va_vet_center'', ''va_regional_office'', ''va_cemetery'']),
   (''veteran'', [''va_facility'', ''va_medical_center'', ''va_outpatient_clinic'', ''va_vet_center'', ''va_regional_office'']),
   (''vet'', [''va_facility'', ''va_medical_center'', ''va_outpatient_clinic'', ''va_vet_center'']),
   (''military'', [''va_facility'', ''va_medical_center'']),
   (''wifi'', [''wifi'', ''internet'']),
   (''internet'', [''wifi'', ''internet'']),
   (''online'', [''wifi'', ''internet'']),
   (''transit'', [''transit'']),
   (''bus'', [''transit'']),
   (''train'', [''transit'']),
   (''ride'', [''transit'']),
   (''transport'', [''transit'']),
   (''shower'', [''shower'']),
   (''laundry'', [''laundry'']),
   (''wash'', [''laundry'', ''handwashing'', ''shower'']),
   (''clean'', [''laundry'', ''shower'', ''handwashing'']),
   (''haircut'', [''haircut'']),
   (''barber'', [''haircut'']),
   (''charging'', [''charging'']),
   (''charge'', [''charging'']),
   (''power'', [''charging'']),
   (''phone'', [''charging'']),
   (''battery'', [''charging'']),
   (''library'', [''library'']),
   (''book'', [''library'']),
   (''books'', [''library'']),
   (''legal'', [''legal'']),
   (''lawyer'', [''legal'']),
   (''law'', [''legal'']),
   (''job'', [''job_training'']),
   (''work'', [''job_training'']),
   (''employment'', [''job_training'']),
   (''training'', [''job_training'']),
   (''tax'', [''tax_help'']),
   (''taxes'', [''tax_help'']),
   (''irs'', [''tax_help'']),
   (''social'', [''social_services'']),
   (''baby'', [''baby_needs'']),
   (''infant'', [''baby_needs'']),
   (''diaper'', [''baby_needs'']),
   (''pet'', [''pet_services'']),
   (''dog'', [''pet_services'']),
   (''cat'', [''pet_services'']),
   (''animal'', [''pet_services'']),
   (''needle'', [''needle_exchange'']),
   (''syringe'', [''needle_exchange'', ''safe_injection'']),
   (''clothing'', [''clothing'']),
   (''clothes'', [''clothing'']),
   (''jacket'', [''clothing'']),
   (''coat'', [''clothing'']),
   (''bench'', [''bench'']),
   (''sit'', [''bench'']),
   (''seat'', [''bench'']),
   (''emergency'', [''disaster_relief'', ''hurricane_shelter'', ''warming_center'', ''cooling_center'']),
   (''disaster'', [''disaster_relief'']),
   (''usda'', [''usda_facility'', ''usda_rural_development_office'', ''usda_snap_office'', ''usda_farm_service_center'', ''usda_extension_office'', ''usda_wic_office'']),
   (''farm'', [''usda_farm_service_center''])]"

text \<open>\<^verbatim>\<open>UTILITY_FILTERS\<close>: the filter chips; the chip \<^verbatim>\<open>all\<close> has no categories.\<close>

definition UTILITY_FILTERS :: "(string \<times> string list option) list" where
  "UTILITY_FILTERS =
  [(''all'', None),
   (''restroom'', Some [''restroom'']),
   (''water'', Some [''water_fountain'', ''water'', ''handwashing'']),
   (''food'', Some [''free_food'', ''food'']),
   (''shelter'', Some [''shelter'', ''hurricane_shelter'', ''warming_center'', ''cooling_center'']),
   (''health'', Some [''health_center'', ''community_health_center'', ''migrant_health_center'',
      ''homeless_health_center'', ''public_housing_health_center'',
      ''school_based_health_center'', ''federally_qualified_health_center'', ''clinic'',
      ''medical'']),
   (''wifi'', Some [''wifi'', ''internet'']),
   (''transit'', Some [''transit'']),
   (''va'', Some [''va_facility'', ''va_medical_center'', ''va_outpatient_clinic'',
      ''va_vet_center'', ''va_regional_office'', ''va_cemetery'']),
   (''usda'', Some [''usda_facility'', ''usda_snap_office'', ''usda_wic_office'',
      ''usda_farm_service_center'', ''usda_rural_development_office'',
      ''usda_extension_office''])]"

text \<open>
  \<^verbatim>\<open>FILTER_CATEGORY_MAP\<close> is a \<^verbatim>\<open>Map\<close> from the key of every chip that has
  categories to the set of them; \<^verbatim>\<open>Map.get\<close> reads no inherited member.
\<close>

definition FILTER_CATEGORY_MAP :: "string \<Rightarrow> string list option" where
  "FILTER_CATEGORY_MAP =
     map_of (List.map_filter (\<lambda>(k, cs). map_option (\<lambda>c. (k, new_Set c)) cs) UTILITY_FILTERS)"

section \<open>Filter and search engine: \<^verbatim>\<open>filteredUtilities\<close>\<close>

text \<open>
  The loop over the query's words: each word is looked up in \<^verbatim>\<open>SEARCH_SYNONYMS\<close>;
  a truthy result is iterated with \<^verbatim>\<open>forEach\<close>, which an own property (an array)
  has and an inherited member has not: calling it there throws a \<^verbatim>\<open>TypeError\<close>.
\<close>

fun add_synonyms :: "string list \<Rightarrow> string list \<Rightarrow> js_error + string list" where
  "add_synonyms S [] = Inr S"
| "add_synonyms S (word # ws) =
     (case js_get SEARCH_SYNONYMS word of
        Undefined \<Rightarrow> add_synonyms S ws
      | Own matches \<Rightarrow> add_synonyms (fold set_add matches S) ws
      | Inherited m \<Rightarrow> Inl TypeError)"

definition synonymCategories :: "string \<Rightarrow> js_error + string list" where
  "synonymCategories query = add_synonyms [] (split_ws query)"

text \<open>\<^verbatim>\<open>fields.some((f) => f?.toLowerCase().includes(query))\<close>\<close>

definition field_includes :: "string \<Rightarrow> string option \<Rightarrow> bool" where
  "field_includes query f = (case f of None \<Rightarrow> False | Some s \<Rightarrow> includes_str (toLowerCase s) query)"

definition text_fields :: "utility \<Rightarrow> string option list" where
  "text_fields u = [name u, category u, utype u, address u, description u]"

text \<open>The predicate of the text filter, for the synonym set \<open>syn\<close> of the query.\<close>

definition matches_search :: "string list \<Rightarrow> string \<Rightarrow> utility \<Rightarrow> bool" where
  "matches_search syn query u =
     (if length syn > 0 \<and>
         ((case category u of None \<Rightarrow> False | Some c \<Rightarrow> c \<in> set syn) \<or>
          (case utype u of None \<Rightarrow> False | Some t \<Rightarrow> t \<noteq> [] \<and> t \<in> set syn))
      then True
      else list_ex (field_includes query) (text_fields u))"

text \<open>The predicate of the category filter, for the member set of the selected chip.\<close>

definition matches_category :: "string list \<Rightarrow> utility \<Rightarrow> bool" where
  "matches_category matchSet u =
     ((case category u of None \<Rightarrow> False | Some c \<Rightarrow> toLowerCase c \<in> set matchSet) \<or>
      (case utype u of None \<Rightarrow> False | Some t \<Rightarrow> t \<noteq> [] \<and> toLowerCase t \<in> set matchSet))"

definition search_filter :: "utility list \<Rightarrow> string \<Rightarrow> js_error + utility list" where
  "search_filter result query =
     (if query \<noteq> []
      then (case synonymCategories query of
              Inl e \<Rightarrow> Inl e
            | Inr syn \<Rightarrow> Inr (filter (matches_search syn query) result))
      else Inr result)"

definition category_filter :: "utility list \<Rightarrow> string \<Rightarrow> utility list" where
  "category_filter result deferredFilter =
     (if deferredFilter \<noteq> ''all''
      then (case FILTER_CATEGORY_MAP deferredFilter of
              Some matchSet \<Rightarrow> filter (matches_category matchSet) result
            | None \<Rightarrow> result)
      else result)"

definition filteredUtilities :: "utility list \<Rightarrow> string \<Rightarrow> string \<Rightarrow> js_error + utility list" where
  "filteredUtilities utilities deferredFilter committedSearch =
     (case search_filter utilities (toLowerCase committedSearch) of
        Inl e \<Rightarrow> Inl e
      | Inr result \<Rightarrow> Inr (category_filter result deferredFilter))"

section \<open>Viewport culling and the eligible markers: \<^verbatim>\<open>markersToRender\<close>\<close>

text \<open>
  \<^verbatim>\<open>viewportBounds\<close> is the buffered bounding box of the map region, or
  \<^verbatim>\<open>null\<close> while no region is known. The box is computed from the region in
  floating point; the model takes the four bounds as they are.
\<close>

record bounds =
  minLat :: real
  maxLat :: real
  minLng :: real
  maxLng :: real

definition in_bounds :: "bounds \<Rightarrow> utility \<Rightarrow> bool" where
  "in_bounds b u =
     (latitude u \<ge> minLat b \<and> latitude u \<le> maxLat b \<and>
      longitude u \<ge> minLng b \<and> longitude u \<le> maxLng b)"

definition visibleUtilities :: "utility list \<Rightarrow> nat \<Rightarrow> utility list" where
  "visibleUtilities utilities mountedCount = take mountedCount utilities"

text \<open>\<open>None\<close> is the source's \<^verbatim>\<open>null\<close>: everything matches.\<close>

definition matchingFilterIds ::
  "utility list \<Rightarrow> string \<Rightarrow> string \<Rightarrow> utility_id list option" where
  "matchingFilterIds filtered deferredFilter committedSearch =
     (if deferredFilter = ''all'' \<and> committedSearch = [] then None
      else Some (new_Set (map uid filtered)))"

definition markersToRender ::
  "utility list \<Rightarrow> bounds option \<Rightarrow> utility_id list option \<Rightarrow> utility list" where
  "markersToRender visible vb mfi =
     (let markers = (case vb of None \<Rightarrow> visible | Some b \<Rightarrow> filter (in_bounds b) visible)
      in case mfi of
           None \<Rightarrow> markers
         | Some ids \<Rightarrow> filter (\<lambda>u. uid u \<in> set ids) markers)"

section \<open>The stable render set\<close>

definition MOUNT_BATCH :: nat where "MOUNT_BATCH = 5000"
definition RENDER_BATCH :: nat where "RENDER_BATCH = 300"
definition INITIAL_RENDER_BATCH :: nat where "INITIAL_RENDER_BATCH = 4000"
definition MAX_RENDERED :: nat where "MAX_RENDERED = 4000"

definition batchSize :: "bool \<Rightarrow> nat" where
  "batchSize initialLoadComplete =
     (if initialLoadComplete then RENDER_BATCH else INITIAL_RENDER_BATCH)"

text \<open>
  The prune loop deletes from \<^verbatim>\<open>renderedIdsRef.current\<close> every identifier that is
  not in \<^verbatim>\<open>validIds\<close>.
\<close>

definition prune :: "utility_id list \<Rightarrow> utility_id list \<Rightarrow> utility_id list" where
  "prune validIds rendered = filter (\<lambda>i. i \<in> set validIds) rendered"

text \<open>
  The admission loop, shared by the reconciliation effect and the growth timer: it
  walks the eligible markers in order and stops at the first marker it meets with the
  set full or the batch used up. The result is the new set and the counter
  \<^verbatim>\<open>added\<close>.
\<close>

fun admit :: "nat \<Rightarrow> nat \<Rightarrow> utility list \<Rightarrow> utility_id list \<Rightarrow> utility_id list \<times> nat" where
  "admit batch added [] rendered = (rendered, added)"
| "admit batch added (m # ms) rendered =
     (if length rendered \<ge> MAX_RENDERED then (rendered, added)
      else if added \<ge> batch then (rendered, added)
      else if uid m \<notin> set rendered then admit batch (Suc added) ms (rendered @ [uid m])
      else admit batch added ms rendered)"

definition reconcile_effect :: "bool \<Rightarrow> utility list \<Rightarrow> utility_id list \<Rightarrow> utility_id list" where
  "reconcile_effect initialLoadComplete markers rendered =
     (let validIds = new_Set (map uid markers);
          pruned = prune validIds rendered
      in fst (admit (batchSize initialLoadComplete) 0 markers pruned))"

text \<open>
  The growth timer exists only while the set is below its target; its callback runs
  the admission loop once more.
\<close>

definition growth_target :: "utility list \<Rightarrow> nat" where
  "growth_target markers = min (length markers) MAX_RENDERED"

definition growth_timer :: "bool \<Rightarrow> utility list \<Rightarrow> utility_id list \<Rightarrow> utility_id list" where
  "growth_timer initialLoadComplete markers rendered =
     (if length rendered \<ge> growth_target markers then rendered
      else fst (admit (batchSize initialLoadComplete) 0 markers rendered))"

definition finalMarkers :: "utility list \<Rightarrow> utility_id list \<Rightarrow> utility list" where
  "finalMarkers markers rendered = filter (\<lambda>m. uid m \<in> set rendered) markers"

section \<open>The map screen with viewport culling (MapScreen.tsx) as a state machine\<close>

record screen =
  utilities :: "utility list"
  isLoading :: bool
  mountedCount :: nat
  committedSearch :: string
  deferredFilter :: string
  viewportBounds :: "bounds option"
  renderedIds :: "utility_id list"
  renderComplete :: bool
  initialLoadComplete :: bool

text \<open>The memoised chain from the state to \<^verbatim>\<open>markersToRender\<close>; it throws where
  \<^verbatim>\<open>filteredUtilities\<close> throws.\<close>

definition eligible :: "screen \<Rightarrow> js_error + utility list" where
  "eligible s =
     (case filteredUtilities (utilities s) (deferredFilter s) (committedSearch s) of
        Inl e \<Rightarrow> Inl e
      | Inr filtered \<Rightarrow>
          Inr (markersToRender (visibleUtilities (utilities s) (mountedCount s))
                 (viewportBounds s)
                 (matchingFilterIds filtered (deferredFilter s) (committedSearch s))))"

text \<open>
  The effect that drives \<^verbatim>\<open>renderComplete\<close>: it resets the flag while data is
  loading, while the progressive mount is behind, or while the render set is below its
  target; otherwise it arms the timer that sets the flag.
\<close>

definition gate_ready :: "utility list \<Rightarrow> screen \<Rightarrow> bool" where
  "gate_ready markers s =
     (\<not> isLoading s \<and> \<not> mountedCount s < length (utilities s) \<and>
      \<not> (growth_target markers > 0 \<and> length (renderedIds s) < growth_target markers))"

definition gate_effect :: "utility list \<Rightarrow> screen \<Rightarrow> screen" where
  "gate_effect markers s = (if gate_ready markers s then s else s\<lparr>renderComplete := False\<rparr>)"

text \<open>The effect that marks the initial load as complete.\<close>

definition mark_effect :: "screen \<Rightarrow> screen" where
  "mark_effect s =
     (if \<not> isLoading s \<and> renderComplete s then s\<lparr>initialLoadComplete := True\<rparr> else s)"

definition showLoadingOverlay :: "screen \<Rightarrow> bool" where
  "showLoadingOverlay s = (\<not> initialLoadComplete s \<and> (isLoading s \<or> \<not> renderComplete s))"

text \<open>
  A render in which \<^verbatim>\<open>markersToRender\<close> is recomputed, followed by the effects in
  the order of their declaration: reconciliation, gate, mark.
\<close>

definition rerender :: "screen \<Rightarrow> js_error + screen" where
  "rerender s =
     (case eligible s of
        Inl e \<Rightarrow> Inl e
      | Inr markers \<Rightarrow>
          Inr (mark_effect (gate_effect markers
                 (s\<lparr>renderedIds :=
                      reconcile_effect (initialLoadComplete s) markers (renderedIds s)\<rparr>))))"

text \<open>A render that leaves \<^verbatim>\<open>markersToRender\<close> as it is, followed by gate and mark.\<close>

definition effects_only :: "screen \<Rightarrow> js_error + screen" where
  "effects_only s =
     (case eligible s of
        Inl e \<Rightarrow> Inl e
      | Inr markers \<Rightarrow> Inr (mark_effect (gate_effect markers s)))"

text \<open>
  \<^verbatim>\<open>handleSearch\<close> recomputes the synonym set of the trimmed, lowercased query for the
  map animation, with the loop of \<^verbatim>\<open>filteredUtilities\<close>; an empty query returns
  before it.
\<close>

definition handleSearch_synonyms :: "string \<Rightarrow> js_error + string list" where
  "handleSearch_synonyms query =
     (if query = [] then Inr [] else synonymCategories (toLowerCase query))"

datatype event =
    RegionChange bounds
  | CommitSearch string
  | ClearSearch
  | FilterPress string
  | StoreUtilities "utility list"
  | StoreLoading bool
  | MountTimer
  | GrowthTimer
  | GateTimer

text \<open>
  One event and the renders it causes. A state setter called with the value the state
  already has causes no render; a new region or a new entity array always does. A
  filter press is the moment the deferred filter takes the value of the chip. When
  the number of entities changes, the reset effect sets \<^verbatim>\<open>mountedCount\<close> to 0 in
  a second render. The result is \<open>Inl\<close> when the handler or the render throws.
\<close>

definition step :: "event \<Rightarrow> screen \<Rightarrow> js_error + screen" where
  "step e s =
     (case e of
        RegionChange b \<Rightarrow> rerender (s\<lparr>viewportBounds := Some b\<rparr>)
      | CommitSearch searchQuery \<Rightarrow>
          (let query = trim searchQuery in
           case handleSearch_synonyms query of
             Inl err \<Rightarrow> Inl err
           | Inr syn \<Rightarrow>
               if query = committedSearch s then Inr s
               else rerender (s\<lparr>committedSearch := query\<rparr>))
      | ClearSearch \<Rightarrow>
          if committedSearch s = [] then Inr s else rerender (s\<lparr>committedSearch := []\<rparr>)
      | FilterPress k \<Rightarrow>
          if k = deferredFilter s then Inr s else rerender (s\<lparr>deferredFilter := k\<rparr>)
      | StoreUtilities us \<Rightarrow>
          (case rerender (s\<lparr>utilities := us\<rparr>) of
             Inl err \<Rightarrow> Inl err
           | Inr s1 \<Rightarrow>
               if length us \<noteq> length (utilities s) then rerender (s1\<lparr>mountedCount := 0\<rparr>)
               else Inr s1)
      | StoreLoading b \<Rightarrow> effects_only (s\<lparr>isLoading := b\<rparr>)
      | MountTimer \<Rightarrow>
          if mountedCount s \<ge> length (utilities s) then Inr s
          else rerender (s\<lparr>mountedCount :=
                 min (mountedCount s + MOUNT_BATCH) (length (utilities s))\<rparr>)
      | GrowthTimer \<Rightarrow>
          (case eligible s of
             Inl err \<Rightarrow> Inl err
           | Inr markers \<Rightarrow>
               effects_only (s\<lparr>renderedIds :=
                 growth_timer (initialLoadComplete s) markers (renderedIds s)\<rparr>))
      | GateTimer \<Rightarrow>
          (case eligible s of
             Inl err \<Rightarrow> Inl err
           | Inr markers \<Rightarrow>
               if gate_ready markers s then effects_only (s\<lparr>renderComplete := True\<rparr>)
               else Inr s))"

fun run :: "event list \<Rightarrow> screen \<Rightarrow> js_error + screen" where
  "run [] s = Inr s"
| "run (e # es) s = (case step e s of Inl err \<Rightarrow> Inl err | Inr s' \<Rightarrow> run es s')"

text \<open>The screen when it mounts, for the entities in the store and the first region.\<close>

definition initial :: "utility list \<Rightarrow> bool \<Rightarrow> bounds option \<Rightarrow> screen" where
  "initial us loading vb =
     \<lparr>utilities = us, isLoading = loading, mountedCount = 0, committedSearch = [],
      deferredFilter = ''all'', viewportBounds = vb, renderedIds = [],
      renderComplete = False, initialLoadComplete = False\<rparr>"

inductive reachable :: "screen \<Rightarrow> bool" where
  reachable_initial: "reachable (initial us loading vb)"
| reachable_step: "reachable s \<Longrightarrow> step e s = Inr s' \<Longrightarrow> reachable s'"

text \<open>
  The render set stays inside the eligible markers, below the maximum, and without
  repetition.
\<close>

definition within_viewport :: "bounds option \<Rightarrow> utility \<Rightarrow> bool" where
  "within_viewport vb u = (case vb of None \<Rightarrow> True | Some b \<Rightarrow> in_bounds b u)"

definition render_inv :: "screen \<Rightarrow> bool" where
  "render_inv s =
     (case eligible s of
        Inl e \<Rightarrow> False
      | Inr markers \<Rightarrow>
          set (renderedIds s) \<subseteq> uid ` set markers \<and>
          length (renderedIds s) \<le> MAX_RENDERED \<and> distinct (renderedIds s))"

section \<open>Marker images (markerImages.ts)\<close>

text \<open>
  \<^verbatim>\<open>require\<close> of a marker picture gives the number of a registered asset, which is
  positive and so truthy; the model names the asset by its file. What
  \<^verbatim>\<open>getMarkerImage\<close> returns is such an image or, when the table lookup finds an
  inherited member, that member.
\<close>

datatype image_source = Asset string

datatype marker_value = Icon image_source | ProtoMember string

definition imageByCategory :: "(string \<times> image_source) list" where
  "imageByCategory =
  [(''water_fountain'', Asset ''marker_water_fountain''),
   (''water'', Asset ''marker_water''),
   (''handwashing'', Asset ''marker_handwashing''),
   (''restroom'', Asset ''marker_restroom''),
   (''charging_station'', Asset ''marker_charging_station''),
   (''shelter'', Asset ''marker_shelter''),
   (''warming_center'', Asset ''marker_warming_center''),
   (''cooling_center'', Asset ''marker_cooling_center''),
   (''hurricane_shelter'', Asset ''marker_hurricane_shelter''),
   (''food'', Asset ''marker_food''),
   (''free_food'', Asset ''marker_free_food''),
   (''health'', Asset ''marker_health''),
   (''health_center'', Asset ''marker_health_center''),
   (''clinic'', Asset ''marker_clinic''),
   (''medical'', Asset ''marker_medical''),
   (''wifi'', Asset ''marker_wifi''),
   (''internet'', Asset ''marker_internet''),
   (''library'', Asset ''marker_library''),
   (''transit'', Asset ''marker_transit''),
   (''bench'', Asset ''marker_bench''),
   (''va_facility'', Asset ''marker_va_facility''),
   (''usda'', Asset ''marker_usda''),
   (''shower'', Asset ''marker_shower''),
   (''laundry'', Asset ''marker_laundry''),
   (''legal'', Asset ''marker_legal''),
   (''social_services'', Asset ''marker_social_services''),
   (''job_training'', Asset ''marker_job_training''),
   (''mental_health'', Asset ''marker_mental_health''),
   (''clothing'', Asset ''marker_clothing''),
   (''needle_exchange'', Asset ''marker_needle_exchange''),
   (''pet_services'', Asset ''marker_pet_services''),
   (''baby_needs'', Asset ''marker_baby_needs''),
   (''dental'', Asset ''marker_dental''),
   (''eye_care'', Asset ''marker_eye_care''),
   (''haircut'', Asset ''marker_haircut''),
   (''tax_help'', Asset ''marker_tax_help''),
   (''parking'', Asset ''marker_parking''),
   (''disaster_relief'', Asset ''marker_disaster_relief'')]"

definition defaultImage :: image_source where
  "defaultImage = Asset ''marker_default''"

text \<open>\<^verbatim>\<open>category.toLowerCase().replace(/[\s-]/g, '_')\<close>\<close>

definition normalize_category :: "string \<Rightarrow> string" where
  "normalize_category cat =
     map (\<lambda>c. if isWhiteSpace c \<or> c = CHR ''-'' then CHR ''_'' else c) (toLowerCase cat)"

text \<open>The prefix rules, tried when the exact lookup is falsy.\<close>

definition prefix_rule :: "string \<Rightarrow> image_source js_prop" where
  "prefix_rule lower =
     (if startsWith lower ''va_'' then js_get imageByCategory ''va_facility''
      else if startsWith lower ''usda_'' then js_get imageByCategory ''usda''
      else if includes_str lower ''health_center'' \<or> startsWith lower ''community_health'' \<or>
              startsWith lower ''migrant_health'' \<or> startsWith lower ''homeless_health'' \<or>
              startsWith lower ''public_housing_health'' \<or>
              startsWith lower ''school_based_health'' \<or>
              startsWith lower ''federally_qualified''
           then js_get imageByCategory ''health_center''
      else if lower = ''safe_injection'' then js_get imageByCategory ''needle_exchange''
      else if lower = ''addiction_services'' \<or> lower = ''suicide_prevention'' \<or>
              lower = ''domestic_violence''
           then js_get imageByCategory ''mental_health''
      else Undefined)"

text \<open>The body of \<^verbatim>\<open>getMarkerImage\<close> after the cache check.\<close>

definition getMarkerImage_uncached :: "string \<Rightarrow> marker_value" where
  "getMarkerImage_uncached cat =
     (let lower = normalize_category cat;
          exact = js_get imageByCategory lower;
          img = (if exact = Undefined then prefix_rule lower else exact)
      in case img of
           Own i \<Rightarrow> Icon i
         | Inherited m \<Rightarrow> ProtoMember m
         | Undefined \<Rightarrow> Icon defaultImage)"

text \<open>\<^verbatim>\<open>categoryCache\<close> is a \<^verbatim>\<open>Map\<close> from the category \<open>cat\<close> as given to the result.\<close>

definition getMarkerImage ::
  "(string \<rightharpoonup> marker_value) \<Rightarrow> string \<Rightarrow> marker_value \<times> (string \<rightharpoonup> marker_value)" where
  "getMarkerImage categoryCache cat =
     (case categoryCache cat of
        Some cached \<Rightarrow> (cached, categoryCache)
      | None \<Rightarrow>
          (let result = getMarkerImage_uncached cat
           in (result, categoryCache(cat \<mapsto> result))))"

text \<open>A sequence of calls, threading the cache.\<close>

fun getMarkerImages ::
  "(string \<rightharpoonup> marker_value) \<Rightarrow> string list \<Rightarrow> marker_value list \<times> (string \<rightharpoonup> marker_value)" where
  "getMarkerImages cache [] = ([], cache)"
| "getMarkerImages cache (c # cs) =
     (let (v, cache') = getMarkerImage cache c;
          (vs, cache'') = getMarkerImages cache' cs
      in (v # vs, cache''))"

definition cache_ok :: "(string \<rightharpoonup> marker_value) \<Rightarrow> bool" where
  "cache_ok cache = (\<forall>k v. cache k = Some v \<longrightarrow> v = getMarkerImage_uncached k)"

section \<open>The map screen without culling: preloader and mount gate\<close>

text \<open>
  The file PrivacyPolicyScreen.tsx holds a second \<^verbatim>\<open>MapScreen\<close>, which mounts
  every filtered entity and warms the icon cache first.
\<close>

text \<open>
  A promise the screen awaits is fulfilled, rejected, or never settles.
  \<^verbatim>\<open>Promise.allSettled\<close> waits for every promise and never rejects.
\<close>

datatype promise = Fulfilled | Rejected | Pending

definition allSettled :: "promise list \<Rightarrow> promise" where
  "allSettled ps = (if Pending \<in> set ps then Pending else Fulfilled)"

text \<open>
  The host: \<^verbatim>\<open>Image.resolveAssetSource(src)?.uri\<close> (\<open>None\<close> is a missing or empty
  URI, which \<^verbatim>\<open>filter(Boolean)\<close> drops), the native module
  \<^verbatim>\<open>MarkerIconPreloader\<close> (\<open>None\<close> when the module is not there, otherwise the
  outcome of \<^verbatim>\<open>preloadIcons\<close>), and \<^verbatim>\<open>Image.prefetch\<close>.
\<close>

record host =
  resolveAssetSource :: "image_source \<Rightarrow> string option"
  MarkerIconPreloader :: "promise option"
  prefetch :: "string \<Rightarrow> promise"

text \<open>
  The effect \<^verbatim>\<open>preload\<close>, for the list \<^verbatim>\<open>ALL_UNIQUE_MARKER_IMAGES\<close> (exported by
  a version of markerImages.ts that is not among the sources, hence a parameter) and
  the flag \<^verbatim>\<open>cancelled\<close> as it is when the awaits are over. The result is the list
  of individual prefetch requests and the value of \<^verbatim>\<open>imagesCached\<close>, or \<open>None\<close>
  when an awaited promise never settles.
\<close>

definition preload :: "image_source list \<Rightarrow> host \<Rightarrow> bool \<Rightarrow> (string list \<times> bool) option" where
  "preload ALL_UNIQUE_MARKER_IMAGES h cancelled =
     (let uris = List.map_filter (resolveAssetSource h) ALL_UNIQUE_MARKER_IMAGES in
      case MarkerIconPreloader h of
        Some Fulfilled \<Rightarrow> Some ([], \<not> cancelled)
      | Some Pending \<Rightarrow> None
      | Some Rejected \<Rightarrow>
          (let fallbackUris = List.map_filter (resolveAssetSource h) ALL_UNIQUE_MARKER_IMAGES in
           case allSettled (map (prefetch h) fallbackUris) of
             Pending \<Rightarrow> None
           | _ \<Rightarrow> Some (fallbackUris, \<not> cancelled))
      | None \<Rightarrow>
          (case allSettled (map (prefetch h) uris) of
             Pending \<Rightarrow> None
           | _ \<Rightarrow> Some (uris, \<not> cancelled)))"


record plain_screen =
  store_utilities :: "utility list"
  committed :: string
  deferred :: string
  selectedUtility :: "utility option"
  imagesCached :: bool






text \<open>The screen at startup, and the moment the preload effect is over.\<close>

definition plain_initial :: "utility list \<Rightarrow> plain_screen" where
  "plain_initial us =
     \<lparr>store_utilities = us, committed = [], deferred = ''all'', selectedUtility = None,
      imagesCached = False\<rparr>"

definition preload_done :: "image_source list \<Rightarrow> host \<Rightarrow> bool \<Rightarrow> plain_screen \<Rightarrow> plain_screen" where
  "preload_done assets h cancelled s =
     (case preload assets h cancelled of
        Some (requests, True) \<Rightarrow> s\<lparr>imagesCached := True\<rparr>
      | _ \<Rightarrow> s)"

section \<open>Fetching the entities (MapScreen.tsx and the utility store)\<close>

datatype 'a response = Resolves 'a | Rejects

record store =
  st_utilities :: "utility list"
  st_isLoading :: bool
  error :: "string option"
  lastFetchTimestamp :: nat

definition setUtilities :: "nat \<Rightarrow> utility list \<Rightarrow> store \<Rightarrow> store" where
  "setUtilities now us st = st\<lparr>st_utilities := us, error := None, lastFetchTimestamp := now\<rparr>"

definition setLoading :: "bool \<Rightarrow> store \<Rightarrow> store" where
  "setLoading b st = st\<lparr>st_isLoading := b\<rparr>"

text \<open>
  The API service: each call resolves with the response data (\<open>None\<close> when the data
  is missing) or rejects. \<^verbatim>\<open>now\<close> is the clock read by \<^verbatim>\<open>setUtilities\<close>.
\<close>

record api =
  getAllUtilities :: "utility list option response"
  getNearbyUtilities :: "real \<times> real \<Rightarrow> utility list option response"
  now :: nat

definition or_empty :: "utility list option \<Rightarrow> utility list" where
  "or_empty results = (case results of Some us \<Rightarrow> us | None \<Rightarrow> [])"

text \<open>
  \<^verbatim>\<open>fetchAllUtilities\<close> of the map screen, on the guard \<^verbatim>\<open>fetchInProgress\<close> and
  the store. \<open>loc\<close> is the optional argument, \<open>currentLocation\<close> the value of
  \<^verbatim>\<open>currentLocationRef\<close>. The result is \<open>Inl\<close> when an exception leaves the
  function.
\<close>

definition fetchAllUtilities ::
  "api \<Rightarrow> (real \<times> real) option \<Rightarrow> (real \<times> real) option \<Rightarrow> bool \<times> store \<Rightarrow>
   js_error + bool \<times> store" where
  "fetchAllUtilities a loc currentLocation st =
     (if fst st then Inr st
      else
        let st1 = setLoading True (snd st);
            body =
              (case getAllUtilities a of
                 Resolves results \<Rightarrow> Inr (setUtilities (now a) (or_empty results) st1)
               | Rejects \<Rightarrow>
                   (case (case loc of Some l \<Rightarrow> Some l | None \<Rightarrow> currentLocation) of
                      Some location \<Rightarrow>
                        (case getNearbyUtilities a location of
                           Resolves results \<Rightarrow> Inr (setUtilities (now a) (or_empty results) st1)
                         | Rejects \<Rightarrow> Inr st1)
                    | None \<Rightarrow> Inr st1))
        in case body of
             Inr st2 \<Rightarrow> Inr (False, setLoading False st2)
           | Inl e \<Rightarrow> Inl e)"

text \<open>
  \<^verbatim>\<open>fetchNearbyUtilities\<close> of the store. Reading \<^verbatim>\<open>utilities.length\<close> of missing
  data throws inside the \<^verbatim>\<open>try\<close>, which the \<^verbatim>\<open>catch\<close> handles like a rejection.
\<close>

definition fetchNearbyUtilities :: "api \<Rightarrow> real \<times> real \<Rightarrow> store \<Rightarrow> store" where
  "fetchNearbyUtilities a location st =
     (case getNearbyUtilities a location of
        Resolves (Some us) \<Rightarrow> st\<lparr>st_utilities := us, error := None, st_isLoading := False\<rparr>
      | _ \<Rightarrow> st\<lparr>error := Some ''Failed to fetch nearby utilities'', st_isLoading := False\<rparr>)"

section \<open>Scenarios of the culling screen\<close>

definition entity1 :: utility where
  "entity1 = \<lparr>uid = NumId 1, name = None, category = Some ''restroom'', utype = None,
      address = None, description = None, latitude = 47.6, longitude = -122.3\<rparr>"

definition entity2 :: utility where
  "entity2 = \<lparr>uid = NumId 2, name = None, category = Some ''water_fountain'', utype = None,
      address = None, description = None, latitude = 47.61, longitude = -122.31\<rparr>"

definition tight_bounds :: bounds where
  "tight_bounds = \<lparr>minLat = 47.605, maxLat = 47.615, minLng = -122.315, maxLng = -122.305\<rparr>"

definition mounted_state :: screen where
  "mounted_state =
     \<lparr>utilities = [entity1, entity2], isLoading = False, mountedCount = 2,
      committedSearch = [], deferredFilter = ''all'', viewportBounds = None,
      renderedIds = [NumId 1, NumId 2], renderComplete = False, initialLoadComplete = False\<rparr>"

definition culled_state :: screen where
  "culled_state = mounted_state\<lparr>viewportBounds := Some tight_bounds, renderedIds := [NumId 2]\<rparr>"

definition searched_state :: screen where
  "searched_state = mounted_state\<lparr>committedSearch := ''Bathroom'', renderedIds := [NumId 1]\<rparr>"

definition open_state :: screen where
  "open_state = mounted_state\<lparr>renderComplete := True, initialLoadComplete := True\<rparr>"

definition reloading_state :: screen where
  "reloading_state =
     mounted_state\<lparr>isLoading := True, renderComplete := False, initialLoadComplete := True\<rparr>"

section \<open>The claims in their own words\<close>


text \<open>
  The claims in their own words, to compare with the source. The synonym expansion of
  a word is the array the synonym table has for it; an entity matches a query as C4
  says when its category or type is in the expansion of one of the query's words or
  the lowercased query occurs in one of its lowercased text fields.
\<close>

definition synonym_expansion :: "string \<Rightarrow> string set" where
  "synonym_expansion w = (case map_of SEARCH_SYNONYMS w of Some ms \<Rightarrow> set ms | None \<Rightarrow> {})"

definition claimed_match :: "string \<Rightarrow> utility \<Rightarrow> bool" where
  "claimed_match q u =
     ((\<exists>c. (category u = Some c \<or> utype u = Some c) \<and>
           c \<in> (\<Union>w \<in> set (split_ws (toLowerCase q)). synonym_expansion w)) \<or>
      (\<exists>s ps ss. Some s \<in> set (text_fields u) \<and> toLowerCase s = ps @ toLowerCase q @ ss))"

text \<open>
  The image C10 describes: the exact entry, else the prefix rules for the VA, USDA and
  health-centre groups, else the default. The amended image adds the aliases of the
  source between the prefix rules and the default.
\<close>

definition health_center_variant :: "string \<Rightarrow> bool" where
  "health_center_variant lower =
     (includes_str lower ''health_center'' \<or> startsWith lower ''community_health'' \<or>
      startsWith lower ''migrant_health'' \<or> startsWith lower ''homeless_health'' \<or>
      startsWith lower ''public_housing_health'' \<or> startsWith lower ''school_based_health'' \<or>
      startsWith lower ''federally_qualified'')"

definition claimed_image :: "string \<Rightarrow> image_source" where
  "claimed_image cat =
     (let lower = normalize_category cat in
      case map_of imageByCategory lower of
        Some i \<Rightarrow> i
      | None \<Rightarrow>
          if startsWith lower ''va_'' then Asset ''marker_va_facility''
          else if startsWith lower ''usda_'' then Asset ''marker_usda''
          else if health_center_variant lower then Asset ''marker_health_center''
          else defaultImage)"

definition amended_image :: "string \<Rightarrow> image_source" where
  "amended_image cat =
     (let lower = normalize_category cat in
      case map_of imageByCategory lower of
        Some i \<Rightarrow> i
      | None \<Rightarrow>
          if startsWith lower ''va_'' then Asset ''marker_va_facility''
          else if startsWith lower ''usda_'' then Asset ''marker_usda''
          else if health_center_variant lower then Asset ''marker_health_center''
          else if lower = ''safe_injection'' then Asset ''marker_needle_exchange''
          else if lower \<in> {''addiction_services'', ''suicide_prevention'', ''domestic_violence''}
               then Asset ''marker_mental_health''
          else defaultImage)"

section \<open>Scenarios of the fetch, the preloader and the mount gate\<close>

definition failing_api :: api where
  "failing_api = \<lparr>getAllUtilities = Rejects, getNearbyUtilities = (\<lambda>location. Rejects), now = 1\<rparr>"

definition bundled_store :: store where
  "bundled_store =
     \<lparr>st_utilities = [entity1, entity2], st_isLoading = False, error = None,
      lastFetchTimestamp = 0\<rparr>"

definition flaky_host :: host where
  "flaky_host =
     \<lparr>resolveAssetSource = (\<lambda>a. case a of Asset n \<Rightarrow> Some (''asset:/'' @ n)),
      MarkerIconPreloader = Some Rejected,
      prefetch = (\<lambda>uri. if uri = ''asset:/marker_default'' then Fulfilled else Rejected)\<rparr>"

definition three_assets :: "image_source list" where
  "three_assets = [Asset ''marker_water'', Asset ''marker_restroom'', defaultImage]"


section \<open>What the two screens mount\<close>




section \<open>Properties of the render set\<close>


lemma set_add_set [simp]: "set (set_add x S) = insert x (set S)"
  by (auto simp: set_add_def)

lemma set_add_distinct: "distinct S \<Longrightarrow> distinct (set_add x S)"
  by (simp add: set_add_def)

lemma fold_set_add_set: "set (fold set_add xs S) = set xs \<union> set S"
  by (induction xs arbitrary: S) auto

lemma fold_set_add_distinct: "distinct S \<Longrightarrow> distinct (fold set_add xs S)"
  by (induction xs arbitrary: S) (auto simp: set_add_distinct)

lemma new_Set_set [simp]: "set (new_Set xs) = set xs"
  by (simp add: new_Set_def fold_set_add_set)

lemma prune_set: "set (prune validIds rendered) = set rendered \<inter> set validIds"
  by (auto simp: prune_def)

lemma prune_length: "length (prune validIds rendered) \<le> length rendered"
  by (simp add: prune_def)

lemma prune_distinct: "distinct rendered \<Longrightarrow> distinct (prune validIds rendered)"
  by (simp add: prune_def)

text \<open>The admission loop appends a list of new identifiers.\<close>

lemma admit_appends:
  "\<exists>new. fst (admit batch added ms rendered) = rendered @ new \<and>
         set new \<subseteq> uid ` set ms \<and> set new \<inter> set rendered = {} \<and> distinct new \<and>
         length new = snd (admit batch added ms rendered) - added \<and>
         added \<le> snd (admit batch added ms rendered)"
proof (induction ms arbitrary: added rendered)
  case Nil
  then show ?case by simp
next
  case (Cons m ms)
  show ?case
  proof (cases "length rendered \<ge> MAX_RENDERED \<or> added \<ge> batch")
    case True
    then show ?thesis by auto
  next
    case False
    show ?thesis
    proof (cases "uid m \<in> set rendered")
      case True
      with False Cons.IH [of added rendered] show ?thesis by auto
    next
      case fresh: False
      from Cons.IH [of "Suc added" "rendered @ [uid m]"]
      obtain new where new:
        "fst (admit batch (Suc added) ms (rendered @ [uid m])) = (rendered @ [uid m]) @ new"
        "set new \<subseteq> uid ` set ms" "set new \<inter> set (rendered @ [uid m]) = {}" "distinct new"
        "length new = snd (admit batch (Suc added) ms (rendered @ [uid m])) - Suc added"
        "Suc added \<le> snd (admit batch (Suc added) ms (rendered @ [uid m]))"
        by blast
      have "fst (admit batch added (m # ms) rendered) = rendered @ (uid m # new)"
        using False fresh new(1) by simp
      moreover have "set (uid m # new) \<subseteq> uid ` set (m # ms)"
        using new(2) by auto
      moreover have "set (uid m # new) \<inter> set rendered = {}"
        using new(3) fresh by auto
      moreover have "distinct (uid m # new)"
        using new(3,4) by auto
      moreover have "snd (admit batch added (m # ms) rendered) =
          snd (admit batch (Suc added) ms (rendered @ [uid m]))"
        using False fresh by simp
      ultimately show ?thesis
        using new(5,6) by (intro exI [of _ "uid m # new"]) auto
    qed
  qed
qed

lemma admit_added_bound: "snd (admit batch added ms rendered) \<le> max added batch"
proof (induction ms arbitrary: added rendered)
  case Nil
  then show ?case by simp
next
  case (Cons m ms)
  from Cons.IH [of "Suc added" "rendered @ [uid m]"] Cons.IH [of added rendered]
  show ?case by (auto simp: max_def split: if_splits)
qed

lemma admit_length_bound:
  "length (fst (admit batch added ms rendered)) \<le> max (length rendered) MAX_RENDERED"
proof (induction ms arbitrary: added rendered)
  case Nil
  then show ?case by simp
next
  case (Cons m ms)
  from Cons.IH [of "Suc added" "rendered @ [uid m]"] Cons.IH [of added rendered]
  show ?case by (auto simp: max_def split: if_splits)
qed

lemma admit_new_count:
  "card (set (fst (admit batch 0 ms rendered)) - set rendered) \<le> batch"
proof -
  obtain new where new: "fst (admit batch 0 ms rendered) = rendered @ new"
    "length new = snd (admit batch 0 ms rendered) - 0"
    using admit_appends [of batch 0 ms rendered] by blast
  have "set (fst (admit batch 0 ms rendered)) - set rendered \<subseteq> set new"
    using new(1) by auto
  then have "card (set (fst (admit batch 0 ms rendered)) - set rendered) \<le> card (set new)"
    by (intro card_mono) auto
  also have "\<dots> \<le> length new" by (rule card_length)
  also have "\<dots> \<le> batch" using new(2) admit_added_bound [of batch 0 ms rendered] by simp
  finally show ?thesis .
qed

lemma admit_set_subset: "set (fst (admit batch added ms rendered)) \<subseteq> set rendered \<union> uid ` set ms"
  using admit_appends [of batch added ms rendered] by auto

lemma admit_keeps: "set rendered \<subseteq> set (fst (admit batch added ms rendered))"
  using admit_appends [of batch added ms rendered] by auto

lemma admit_distinct: "distinct rendered \<Longrightarrow> distinct (fst (admit batch added ms rendered))"
  using admit_appends [of batch added ms rendered] by auto

lemma reconcile_effect_subset: "set (reconcile_effect ilc markers rendered) \<subseteq> uid ` set markers"
  using admit_set_subset [of "batchSize ilc" 0 markers "prune (new_Set (map uid markers)) rendered"]
  by (auto simp: reconcile_effect_def prune_set)

lemma reconcile_effect_keeps:
  "i \<in> set rendered \<Longrightarrow> i \<in> uid ` set markers \<Longrightarrow> i \<in> set (reconcile_effect ilc markers rendered)"
  using admit_keeps [of "prune (new_Set (map uid markers)) rendered" "batchSize ilc" 0 markers]
  by (auto simp: reconcile_effect_def prune_set)

lemma reconcile_effect_length:
  "length rendered \<le> MAX_RENDERED \<Longrightarrow> length (reconcile_effect ilc markers rendered) \<le> MAX_RENDERED"
  using admit_length_bound [of "batchSize ilc" 0 markers "prune (new_Set (map uid markers)) rendered"]
    prune_length [of "new_Set (map uid markers)" rendered]
  by (simp add: reconcile_effect_def)

lemma reconcile_effect_distinct:
  "distinct rendered \<Longrightarrow> distinct (reconcile_effect ilc markers rendered)"
  by (simp add: reconcile_effect_def admit_distinct prune_distinct)

lemma reconcile_effect_new_count:
  "card (set (reconcile_effect ilc markers rendered) - set rendered) \<le> batchSize ilc"
proof -
  let ?p = "prune (new_Set (map uid markers)) rendered"
  let ?r = "fst (admit (batchSize ilc) 0 markers ?p)"
  have sub: "set ?r \<subseteq> set ?p \<union> uid ` set markers" by (rule admit_set_subset)
  have "set ?r - set rendered \<subseteq> set ?r - set ?p"
  proof
    fix i assume i: "i \<in> set ?r - set rendered"
    then have "i \<notin> set ?p" by (auto simp: prune_set)
    with i show "i \<in> set ?r - set ?p" by simp
  qed
  then have "card (set ?r - set rendered) \<le> card (set ?r - set ?p)"
    by (intro card_mono) auto
  also have "\<dots> \<le> batchSize ilc" by (rule admit_new_count)
  finally show ?thesis by (simp add: reconcile_effect_def)
qed

lemma growth_timer_new_count:
  "card (set (growth_timer ilc markers rendered) - set rendered) \<le> batchSize ilc"
  by (simp add: growth_timer_def admit_new_count)

lemma growth_timer_subset:
  "set rendered \<subseteq> uid ` set markers \<Longrightarrow> set (growth_timer ilc markers rendered) \<subseteq> uid ` set markers"
  using admit_set_subset [of "batchSize ilc" 0 markers rendered]
  by (auto simp: growth_timer_def)

lemma growth_timer_length:
  "length rendered \<le> MAX_RENDERED \<Longrightarrow> length (growth_timer ilc markers rendered) \<le> MAX_RENDERED"
  using admit_length_bound [of "batchSize ilc" 0 markers rendered]
  by (simp add: growth_timer_def)

lemma growth_timer_distinct:
  "distinct rendered \<Longrightarrow> distinct (growth_timer ilc markers rendered)"
  by (simp add: growth_timer_def admit_distinct)

lemma growth_timer_keeps: "set rendered \<subseteq> set (growth_timer ilc markers rendered)"
  using admit_keeps [of rendered "batchSize ilc" 0 markers]
  by (auto simp: growth_timer_def)

lemma render_inv_iff:
  "render_inv s \<longleftrightarrow>
     (\<exists>markers. eligible s = Inr markers \<and> set (renderedIds s) \<subseteq> uid ` set markers \<and>
        length (renderedIds s) \<le> MAX_RENDERED \<and> distinct (renderedIds s))"
  by (auto simp: render_inv_def split: sum.splits)

lemma markersToRender_set:
  "set (markersToRender visible vb mfi) =
     {u \<in> set visible. within_viewport vb u \<and>
        (case mfi of None \<Rightarrow> True | Some ids \<Rightarrow> uid u \<in> set ids)}"
  by (auto simp: markersToRender_def within_viewport_def split: option.splits)

lemma category_filter_subset: "set (category_filter result k) \<subseteq> set result"
  by (auto simp: category_filter_def split: option.splits)

lemma filteredUtilities_subset:
  "filteredUtilities us k q = Inr filtered \<Longrightarrow> set filtered \<subseteq> set us"
  using category_filter_subset
  by (fastforce simp: filteredUtilities_def search_filter_def split: sum.splits if_splits)

lemma filteredUtilities_unfiltered: "filteredUtilities us ''all'' [] = Inr us"
  by (simp add: filteredUtilities_def search_filter_def category_filter_def toLowerCase_def)

lemma eligible_sound:
  assumes "eligible s = Inr markers"
  shows "\<exists>filtered.
           filteredUtilities (utilities s) (deferredFilter s) (committedSearch s) = Inr filtered \<and>
           set markers \<subseteq> {u \<in> set (utilities s).
               within_viewport (viewportBounds s) u \<and> uid u \<in> uid ` set filtered}"
proof -
  from assms obtain filtered where
    f: "filteredUtilities (utilities s) (deferredFilter s) (committedSearch s) = Inr filtered"
    and m: "markers = markersToRender (visibleUtilities (utilities s) (mountedCount s))
                 (viewportBounds s)
                 (matchingFilterIds filtered (deferredFilter s) (committedSearch s))"
    by (auto simp: eligible_def split: sum.splits)
  have "u \<in> set (utilities s) \<and> within_viewport (viewportBounds s) u \<and> uid u \<in> uid ` set filtered"
    if u: "u \<in> set markers" for u
  proof -
    from u m have vis: "u \<in> set (take (mountedCount s) (utilities s))"
      and vp: "within_viewport (viewportBounds s) u"
      and ids: "case matchingFilterIds filtered (deferredFilter s) (committedSearch s) of
                  None \<Rightarrow> True | Some ids \<Rightarrow> uid u \<in> set ids"
      by (auto simp: markersToRender_set visibleUtilities_def)
    from vis have mem: "u \<in> set (utilities s)" by (rule in_set_takeD)
    have "uid u \<in> uid ` set filtered"
    proof (cases "deferredFilter s = ''all'' \<and> committedSearch s = []")
      case True
      with f have "filtered = utilities s" by (simp add: filteredUtilities_unfiltered)
      with mem show ?thesis by simp
    next
      case False
      with ids show ?thesis by (auto simp: matchingFilterIds_def)
    qed
    with mem vp show ?thesis by simp
  qed
  with f show ?thesis by blast
qed

lemma eligible_flags [simp]:
  "eligible (s\<lparr>isLoading := b\<rparr>) = eligible s"
  "eligible (s\<lparr>renderComplete := b\<rparr>) = eligible s"
  "eligible (s\<lparr>initialLoadComplete := b\<rparr>) = eligible s"
  "eligible (s\<lparr>renderedIds := r\<rparr>) = eligible s"
  by (simp_all add: eligible_def split: sum.splits)

lemma eligible_gate_effect [simp]: "eligible (gate_effect m s) = eligible s"
  by (simp add: gate_effect_def)

lemma eligible_mark_effect [simp]: "eligible (mark_effect s) = eligible s"
  by (simp add: mark_effect_def)

lemma renderedIds_gate_effect [simp]: "renderedIds (gate_effect m s) = renderedIds s"
  by (simp add: gate_effect_def)

lemma renderedIds_mark_effect [simp]: "renderedIds (mark_effect s) = renderedIds s"
  by (simp add: mark_effect_def)

lemma render_inv_effects [simp]: "render_inv (mark_effect (gate_effect m s)) = render_inv s"
  by (simp add: render_inv_iff)

lemma rerender_inv:
  assumes "rerender s = Inr s'" "length (renderedIds s) \<le> MAX_RENDERED" "distinct (renderedIds s)"
  shows "render_inv s'"
proof -
  from assms(1) obtain m where m: "eligible s = Inr m"
    and s': "s' = mark_effect (gate_effect m
               (s\<lparr>renderedIds := reconcile_effect (initialLoadComplete s) m (renderedIds s)\<rparr>))"
    by (auto simp: rerender_def split: sum.splits)
  show ?thesis
    unfolding s' render_inv_effects
    using m assms(2,3)
    by (simp add: render_inv_iff reconcile_effect_subset reconcile_effect_length
        reconcile_effect_distinct)
qed

lemma effects_only_inv:
  assumes "effects_only s = Inr s'" "render_inv s"
  shows "render_inv s'"
  using assms by (auto simp: effects_only_def split: sum.splits)

lemma render_inv_length: "render_inv s \<Longrightarrow> length (renderedIds s) \<le> MAX_RENDERED"
  by (auto simp: render_inv_iff)

lemma render_inv_distinct: "render_inv s \<Longrightarrow> distinct (renderedIds s)"
  by (auto simp: render_inv_iff)

lemma step_inv:
  assumes "step e s = Inr s'" "render_inv s"
  shows "render_inv s'"
proof (cases e)
  case (RegionChange b)
  with assms show ?thesis
    by (auto simp: step_def intro!: rerender_inv dest: render_inv_length render_inv_distinct)
next
  case (CommitSearch q)
  with assms show ?thesis
    by (auto simp: step_def Let_def split: sum.splits if_splits
        intro!: rerender_inv dest: render_inv_length render_inv_distinct)
next
  case ClearSearch
  with assms show ?thesis
    by (auto simp: step_def split: if_splits
        intro!: rerender_inv dest: render_inv_length render_inv_distinct)
next
  case (FilterPress k)
  with assms show ?thesis
    by (auto simp: step_def split: if_splits
        intro!: rerender_inv dest: render_inv_length render_inv_distinct)
next
  case (StoreUtilities us)
  from assms StoreUtilities obtain s1 where
    s1: "rerender (s\<lparr>utilities := us\<rparr>) = Inr s1"
    and s': "if length us \<noteq> length (utilities s) then rerender (s1\<lparr>mountedCount := 0\<rparr>) = Inr s'
             else s' = s1"
    by (auto simp: step_def split: sum.splits if_splits)
  from s1 assms(2) have inv1: "render_inv s1"
    by (auto intro!: rerender_inv dest: render_inv_length render_inv_distinct)
  show ?thesis
  proof (cases "length us \<noteq> length (utilities s)")
    case True
    with s' have "rerender (s1\<lparr>mountedCount := 0\<rparr>) = Inr s'" by simp
    then show ?thesis
      using inv1 by (auto intro!: rerender_inv dest: render_inv_length render_inv_distinct)
  next
    case False
    with s' inv1 show ?thesis by simp
  qed
next
  case (StoreLoading b)
  have "render_inv (s\<lparr>isLoading := b\<rparr>)"
    using assms(2) by (simp add: render_inv_iff)
  with assms StoreLoading show ?thesis
    by (auto simp: step_def intro: effects_only_inv)
next
  case MountTimer
  with assms show ?thesis
    by (auto simp: step_def split: if_splits
        intro!: rerender_inv dest: render_inv_length render_inv_distinct)
next
  case GrowthTimer
  from assms GrowthTimer obtain m where m: "eligible s = Inr m"
    and eff: "effects_only (s\<lparr>renderedIds :=
                 growth_timer (initialLoadComplete s) m (renderedIds s)\<rparr>) = Inr s'"
    by (auto simp: step_def split: sum.splits)
  from assms(2) m have "render_inv (s\<lparr>renderedIds :=
                 growth_timer (initialLoadComplete s) m (renderedIds s)\<rparr>)"
    by (auto simp add: render_inv_iff growth_timer_subset growth_timer_length growth_timer_distinct)
  with eff show ?thesis by (rule effects_only_inv)
next
  case GateTimer
  have "render_inv (s\<lparr>renderComplete := True\<rparr>)"
    using assms(2) by (simp add: render_inv_iff)
  with assms GateTimer show ?thesis
    by (auto simp: step_def split: sum.splits if_splits intro: effects_only_inv)
qed

lemma initial_inv: "render_inv (initial us loading vb)"
  by (simp add: render_inv_iff eligible_def initial_def filteredUtilities_unfiltered)

lemma reachable_inv: "reachable s \<Longrightarrow> render_inv s"
  by (induction rule: reachable.induct) (auto intro: initial_inv step_inv)

section \<open>Runs of the culling screen\<close>


lemma rerender_eligible:
  "rerender s = Inr s' \<Longrightarrow> eligible s' = eligible s"
  by (auto simp: rerender_def split: sum.splits)

lemma rerender_renderedIds:
  "rerender s = Inr s' \<Longrightarrow> eligible s = Inr m \<Longrightarrow>
   renderedIds s' = reconcile_effect (initialLoadComplete s) m (renderedIds s)"
  by (auto simp: rerender_def split: sum.splits)

lemma run_reachable: "reachable s \<Longrightarrow> run es s = Inr s' \<Longrightarrow> reachable s'"
proof (induction es arbitrary: s)
  case Nil
  then show ?case by simp
next
  case (Cons e es)
  then show ?case by (auto split: sum.splits intro: reachable_step)
qed

lemma mounted_step: "step MountTimer (initial [entity1, entity2] False None) = Inr mounted_state"
  by code_simp

lemma culled_step: "step (RegionChange tight_bounds) mounted_state = Inr culled_state"
  by code_simp

lemma searched_step: "step (CommitSearch '' Bathroom '') mounted_state = Inr searched_state"
  by code_simp

lemma open_step: "step GateTimer mounted_state = Inr open_state"
  by code_simp

lemma reloading_step: "step (StoreLoading True) open_state = Inr reloading_state"
  by code_simp

lemma mounted_reachable: "reachable mounted_state"
  using reachable_step [OF reachable_initial mounted_step] .

section \<open>Claims about the render set\<close>

text \<open>
  Claim C1 (subset invariant). In every state the culling screen reaches, the memoised
  chain does not throw, every rendered identifier is the identifier of an entity that
  passes the committed search and category filter and of an entity inside the buffered
  viewport (no bounds: every entity is inside), the markers drawn
  (\<^verbatim>\<open>finalMarkers\<close>) are entities inside the viewport whose identifier passes the
  filter, and the render set has at most \<^verbatim>\<open>MAX_RENDERED\<close> = 4000 elements. Every
  step that changes the filter, the viewport or the entities ends with a
  reconciliation pass, so the states reached are the states after a pass.
\<close>

theorem render_set_subset_invariant:
  assumes "reachable s"
  shows "\<exists>filtered markers.
           filteredUtilities (utilities s) (deferredFilter s) (committedSearch s) = Inr filtered \<and>
           eligible s = Inr markers \<and>
           set (renderedIds s) \<subseteq>
             uid ` set filtered \<inter>
             uid ` {u \<in> set (utilities s). within_viewport (viewportBounds s) u} \<and>
           set (finalMarkers markers (renderedIds s)) \<subseteq>
             {u \<in> set (utilities s).
                within_viewport (viewportBounds s) u \<and> uid u \<in> uid ` set filtered} \<and>
           length (renderedIds s) \<le> MAX_RENDERED \<and> MAX_RENDERED = 4000"
proof -
  from assms have "render_inv s" by (rule reachable_inv)
  then obtain markers where m: "eligible s = Inr markers"
    and sub: "set (renderedIds s) \<subseteq> uid ` set markers"
    and len: "length (renderedIds s) \<le> MAX_RENDERED"
    by (auto simp: render_inv_iff)
  from eligible_sound [OF m] obtain filtered where
    f: "filteredUtilities (utilities s) (deferredFilter s) (committedSearch s) = Inr filtered"
    and ms: "set markers \<subseteq> {u \<in> set (utilities s).
               within_viewport (viewportBounds s) u \<and> uid u \<in> uid ` set filtered}"
    by blast
  have "set (renderedIds s) \<subseteq>
          uid ` set filtered \<inter> uid ` {u \<in> set (utilities s). within_viewport (viewportBounds s) u}"
    using sub ms by blast
  moreover have "set (finalMarkers markers (renderedIds s)) \<subseteq>
          {u \<in> set (utilities s).
             within_viewport (viewportBounds s) u \<and> uid u \<in> uid ` set filtered}"
    using ms by (auto simp: finalMarkers_def)
  ultimately show ?thesis
    using f m len by (simp add: MAX_RENDERED_def)
qed

theorem render_set_subset_invariant_witness:
  "reachable culled_state \<and> renderedIds culled_state = [NumId 2] \<and>
   (\<exists>filtered markers.
      filteredUtilities (utilities culled_state) (deferredFilter culled_state)
        (committedSearch culled_state) = Inr filtered \<and>
      eligible culled_state = Inr markers \<and>
      set (renderedIds culled_state) \<subseteq>
        uid ` set filtered \<inter>
        uid ` {u \<in> set (utilities culled_state).
                 within_viewport (viewportBounds culled_state) u} \<and>
      set (finalMarkers markers (renderedIds culled_state)) \<subseteq>
        {u \<in> set (utilities culled_state).
           within_viewport (viewportBounds culled_state) u \<and> uid u \<in> uid ` set filtered} \<and>
      length (renderedIds culled_state) \<le> MAX_RENDERED \<and> MAX_RENDERED = 4000)"
proof -
  have r: "reachable culled_state"
    using reachable_step [OF mounted_reachable culled_step] .
  have "renderedIds culled_state = [NumId 2]"
    by (simp add: culled_state_def)
  with r render_set_subset_invariant [OF r] show ?thesis by blast
qed

text \<open>
  Claim C2 (churn avoidance). When the viewport changes to \<open>B2\<close> and nothing else
  does, every marker drawn before the change that lies within \<open>B2\<close> is drawn after
  the pass (it was eligible under the unchanged filter, so it still matches it), and
  the pass removes no identifier of the new eligible set.
\<close>

theorem churn_avoidance:
  assumes "eligible s = Inr markers"
      and "step (RegionChange B2) s = Inr s'"
  shows "\<exists>markers'.
           eligible s' = Inr markers' \<and>
           (\<forall>u \<in> set (finalMarkers markers (renderedIds s)).
              in_bounds B2 u \<longrightarrow> u \<in> set (finalMarkers markers' (renderedIds s'))) \<and>
           (\<forall>i \<in> set (renderedIds s). i \<in> uid ` set markers' \<longrightarrow> i \<in> set (renderedIds s'))"
proof -
  let ?s2 = "s\<lparr>viewportBounds := Some B2\<rparr>"
  from assms(2) have rr: "rerender ?s2 = Inr s'" by (simp add: step_def)
  then obtain markers' where m': "eligible ?s2 = Inr markers'"
    by (auto simp: rerender_def split: sum.splits)
  from rr m' have e': "eligible s' = Inr markers'" by (simp add: rerender_eligible)
  from rr m' have r': "renderedIds s' =
      reconcile_effect (initialLoadComplete s) markers' (renderedIds s)"
    by (simp add: rerender_renderedIds)
  from assms(1) m' obtain filtered where
    m: "markers = markersToRender (visibleUtilities (utilities s) (mountedCount s))
          (viewportBounds s) (matchingFilterIds filtered (deferredFilter s) (committedSearch s))"
    and m2: "markers' = markersToRender (visibleUtilities (utilities s) (mountedCount s))
          (Some B2) (matchingFilterIds filtered (deferredFilter s) (committedSearch s))"
    by (auto simp: eligible_def split: sum.splits)
  have keep: "i \<in> set (renderedIds s')" if "i \<in> set (renderedIds s)" "i \<in> uid ` set markers'" for i
    using that r' by (simp add: reconcile_effect_keeps)
  have "u \<in> set (finalMarkers markers' (renderedIds s'))"
    if u: "u \<in> set (finalMarkers markers (renderedIds s))" and b: "in_bounds B2 u" for u
  proof -
    from u have um: "u \<in> set markers" and ur: "uid u \<in> set (renderedIds s)"
      by (auto simp: finalMarkers_def)
    from um b have "u \<in> set markers'"
      unfolding m m2 by (auto simp: markersToRender_set within_viewport_def)
    moreover from this ur have "uid u \<in> set (renderedIds s')"
      by (intro keep) auto
    ultimately show ?thesis by (simp add: finalMarkers_def)
  qed
  with e' keep show ?thesis by blast
qed

theorem churn_avoidance_witness:
  "eligible mounted_state = Inr [entity1, entity2] \<and>
   step (RegionChange tight_bounds) mounted_state = Inr culled_state \<and>
   entity2 \<in> set (finalMarkers [entity1, entity2] (renderedIds mounted_state)) \<and>
   in_bounds tight_bounds entity2 \<and>
   (\<exists>markers'. eligible culled_state = Inr markers' \<and>
      entity2 \<in> set (finalMarkers markers' (renderedIds culled_state)))"
proof -
  have e: "eligible mounted_state = Inr [entity1, entity2]" by code_simp
  have u: "entity2 \<in> set (finalMarkers [entity1, entity2] (renderedIds mounted_state))"
    by code_simp
  have b: "in_bounds tight_bounds entity2" by code_simp
  from churn_avoidance [OF e culled_step] u b e culled_step show ?thesis by blast
qed

text \<open>
  Claim C3 (batch bound). One reconciliation pass and one tick of the growth timer each
  add at most \<^verbatim>\<open>batchSize\<close> identifiers that were not in the set before: 4000
  until the initial load is marked complete, 300 afterwards, and 300 < 4000.
\<close>

theorem batch_bound:
  "card (set (reconcile_effect loaded markers rendered) - set rendered) \<le> batchSize loaded \<and>
   card (set (growth_timer loaded markers rendered) - set rendered) \<le> batchSize loaded \<and>
   batchSize False = 4000 \<and> batchSize True = 300 \<and> RENDER_BATCH < INITIAL_RENDER_BATCH"
proof -
  have "batchSize False = 4000 \<and> batchSize True = 300 \<and> RENDER_BATCH < INITIAL_RENDER_BATCH"
    by (simp add: batchSize_def RENDER_BATCH_def INITIAL_RENDER_BATCH_def)
  with reconcile_effect_new_count [of loaded markers rendered]
    growth_timer_new_count [of loaded markers rendered]
  show ?thesis by blast
qed

section \<open>Claim about the launch gate\<close>

lemma mark_effect_complete:
  "initialLoadComplete s \<Longrightarrow> initialLoadComplete (mark_effect s)"
  by (simp add: mark_effect_def)

lemma gate_effect_complete [simp]:
  "initialLoadComplete (gate_effect m s) = initialLoadComplete s"
  by (simp add: gate_effect_def)

lemma rerender_complete:
  "rerender s = Inr s' \<Longrightarrow> initialLoadComplete s \<Longrightarrow> initialLoadComplete s'"
  by (auto simp: rerender_def mark_effect_complete split: sum.splits)

lemma effects_only_complete:
  "effects_only s = Inr s' \<Longrightarrow> initialLoadComplete s \<Longrightarrow> initialLoadComplete s'"
  by (auto simp: effects_only_def mark_effect_complete split: sum.splits)

lemma step_complete:
  assumes "step e s = Inr s'" "initialLoadComplete s"
  shows "initialLoadComplete s'"
proof (cases e)
  case (StoreUtilities us)
  with assms show ?thesis
    by (auto simp: step_def split: sum.splits if_splits dest!: rerender_complete)
next
  case GrowthTimer
  with assms show ?thesis
    by (auto simp: step_def split: sum.splits dest!: effects_only_complete)
next
  case GateTimer
  with assms show ?thesis
    by (auto simp: step_def split: sum.splits if_splits dest!: effects_only_complete)
qed (use assms in \<open>auto simp: step_def Let_def split: sum.splits if_splits
      dest!: rerender_complete effects_only_complete\<close>)

text \<open>
  Claim C6 (gate single-shot). Once \<^verbatim>\<open>initialLoadCompleteRef\<close> is set, it stays
  set and the loading overlay stays hidden after any sequence of events of the screen
  (region changes, searches, filter presses, new entities, loading flags, timers), also
  when \<^verbatim>\<open>renderComplete\<close> falls back to false.
\<close>

theorem gate_single_shot:
  assumes "initialLoadComplete s" and "run es s = Inr s'"
  shows "initialLoadComplete s' \<and> \<not> showLoadingOverlay s'"
  using assms
proof (induction es arbitrary: s)
  case Nil
  then show ?case by (simp add: showLoadingOverlay_def)
next
  case (Cons e es)
  then show ?case by (auto split: sum.splits dest: step_complete)
qed

theorem gate_single_shot_witness:
  "reachable open_state \<and> initialLoadComplete open_state \<and>
   run [StoreLoading True] open_state = Inr reloading_state \<and>
   \<not> renderComplete reloading_state \<and> isLoading reloading_state \<and>
   initialLoadComplete reloading_state \<and> \<not> showLoadingOverlay reloading_state"
proof -
  have r: "reachable open_state"
    using reachable_step [OF mounted_reachable open_step] .
  have i: "initialLoadComplete open_state" by (simp add: open_state_def)
  have run: "run [StoreLoading True] open_state = Inr reloading_state"
    by (simp add: reloading_step)
  have "\<not> renderComplete reloading_state \<and> isLoading reloading_state"
    by (simp add: reloading_state_def)
  with r i run gate_single_shot [OF i run] show ?thesis by blast
qed

section \<open>Claim about committing a search\<close>

lemma rerender_committedSearch:
  "rerender s = Inr s' \<Longrightarrow> committedSearch s' = committedSearch s"
  by (auto simp: rerender_def mark_effect_def gate_effect_def split: sum.splits)

text \<open>
  Claim C9 (idempotence of commit). Committing a search query and then the same query
  again, with nothing in between, leaves the state after the first commit as it is:
  the second \<^verbatim>\<open>setCommittedSearch\<close> sets the value the state already has, so
  there is no render and no reconciliation pass, and the render set is the same.
\<close>

theorem commit_idempotent:
  assumes "step (CommitSearch searchQuery) s = Inr s1"
  shows "step (CommitSearch searchQuery) s1 = Inr s1"
proof -
  from assms obtain syn where syn: "handleSearch_synonyms (trim searchQuery) = Inr syn"
    by (auto simp: step_def Let_def split: sum.splits)
  from assms syn have "committedSearch s1 = trim searchQuery"
    by (auto simp: step_def Let_def split: if_splits dest: rerender_committedSearch)
  with syn show ?thesis by (simp add: step_def Let_def)
qed

theorem commit_idempotent_witness:
  "step (CommitSearch '' Bathroom '') mounted_state = Inr searched_state \<and>
   step (CommitSearch '' Bathroom '') searched_state = Inr searched_state \<and>
   renderedIds searched_state = [NumId 1]"
proof -
  have "renderedIds searched_state = [NumId 1]" by (simp add: searched_state_def)
  with searched_step commit_idempotent [OF searched_step] show ?thesis by blast
qed


section \<open>Properties of the search filter\<close>

lemma startsWith_iff: "startsWith s p \<longleftrightarrow> (\<exists>ss. s = p @ ss)"
  by (induction s p rule: startsWith.induct) auto

lemma includes_str_iff: "includes_str s q \<longleftrightarrow> (\<exists>ps ss. s = ps @ q @ ss)"
proof (induction s)
  case Nil
  then show ?case by simp
next
  case (Cons c cs)
  show ?case
  proof
    assume "includes_str (c # cs) q"
    then consider "startsWith (c # cs) q" | "includes_str cs q" by auto
    then show "\<exists>ps ss. c # cs = ps @ q @ ss"
    proof cases
      case 1
      then obtain ss where "c # cs = q @ ss" by (auto simp: startsWith_iff)
      then have "c # cs = [] @ q @ ss" by simp
      then show ?thesis by blast
    next
      case 2
      with Cons.IH obtain ps ss where "cs = ps @ q @ ss" by blast
      then have "c # cs = (c # ps) @ q @ ss" by simp
      then show ?thesis by blast
    qed
  next
    assume "\<exists>ps ss. c # cs = ps @ q @ ss"
    then obtain ps ss where eq: "c # cs = ps @ q @ ss" by blast
    show "includes_str (c # cs) q"
    proof (cases ps)
      case Nil
      with eq have "startsWith (c # cs) q" by (auto simp: startsWith_iff)
      then show ?thesis by simp
    next
      case (Cons p ps')
      with eq have "cs = ps' @ q @ ss" by simp
      with Cons.IH have "includes_str cs q" by blast
      then show ?thesis by simp
    qed
  qed
qed

lemma js_get_not_inherited:
  "k \<notin> set object_prototype_keys \<Longrightarrow>
   js_get obj k = (case map_of obj k of Some v \<Rightarrow> Own v | None \<Rightarrow> Undefined)"
  by (simp add: js_get_def)

lemma add_synonyms_set:
  assumes "\<forall>w \<in> set ws. w \<notin> set object_prototype_keys"
  shows "\<exists>S'. add_synonyms S ws = Inr S' \<and>
              set S' = set S \<union> (\<Union>w \<in> set ws. synonym_expansion w)"
  using assms
proof (induction ws arbitrary: S)
  case Nil
  then show ?case by simp
next
  case (Cons w ws)
  then have w: "w \<notin> set object_prototype_keys" and ws: "\<forall>w \<in> set ws. w \<notin> set object_prototype_keys"
    by auto
  show ?case
  proof (cases "map_of SEARCH_SYNONYMS w")
    case None
    with w Cons.IH [OF ws, of S] show ?thesis
      by (auto simp: js_get_not_inherited synonym_expansion_def)
  next
    case (Some ms)
    with w Cons.IH [OF ws, of "fold set_add ms S"] show ?thesis
      by (auto simp: js_get_not_inherited synonym_expansion_def fold_set_add_set)
  qed
qed

lemma synonyms_nonempty_strings: "\<forall>e \<in> set SEARCH_SYNONYMS. [] \<notin> set (snd e)"
  by (simp add: SEARCH_SYNONYMS_def)

lemma synonym_expansion_nonempty: "c \<in> synonym_expansion w \<Longrightarrow> c \<noteq> []"
proof -
  assume c: "c \<in> synonym_expansion w"
  then obtain ms where ms: "map_of SEARCH_SYNONYMS w = Some ms" "c \<in> set ms"
    by (auto simp: synonym_expansion_def split: option.splits)
  then have "(w, ms) \<in> set SEARCH_SYNONYMS" by (auto dest: map_of_SomeD)
  with synonyms_nonempty_strings ms(2) show "c \<noteq> []" by fastforce
qed

lemma toLowerCase_Nil [simp]: "toLowerCase s = [] \<longleftrightarrow> s = []"
  by (simp add: toLowerCase_def)

lemma matches_search_claimed:
  assumes "set syn = (\<Union>w \<in> set (split_ws (toLowerCase q)). synonym_expansion w)"
  shows "matches_search syn (toLowerCase q) u = claimed_match q u"
proof -
  have nonempty: "c \<noteq> []" if "c \<in> set syn" for c
    using that assms synonym_expansion_nonempty by auto
  have syn_len: "length syn > 0" if "c \<in> set syn" for c
    using that by (cases syn) auto
  have fields: "list_ex (field_includes (toLowerCase q)) (text_fields u) \<longleftrightarrow>
      (\<exists>s ps ss. Some s \<in> set (text_fields u) \<and> toLowerCase s = ps @ toLowerCase q @ ss)"
    by (auto simp: list_ex_iff field_includes_def includes_str_iff split: option.splits)
  have cats: "(length syn > 0 \<and>
         ((case category u of None \<Rightarrow> False | Some c \<Rightarrow> c \<in> set syn) \<or>
          (case utype u of None \<Rightarrow> False | Some t \<Rightarrow> t \<noteq> [] \<and> t \<in> set syn))) \<longleftrightarrow>
      (\<exists>c. (category u = Some c \<or> utype u = Some c) \<and> c \<in> set syn)"
    using nonempty syn_len by (auto split: option.splits)
  show ?thesis
    unfolding matches_search_def claimed_match_def fields cats assms [symmetric] by auto
qed

lemma filteredUtilities_search_semantics:
  assumes "q \<noteq> []"
      and "\<forall>w \<in> set (split_ws (toLowerCase q)). w \<notin> set object_prototype_keys"
  shows "filteredUtilities us ''all'' q = Inr (filter (claimed_match q) us)"
proof -
  from add_synonyms_set [OF assms(2), of "[]"] obtain syn where
    syn: "synonymCategories (toLowerCase q) = Inr syn"
    and set: "set syn = (\<Union>w \<in> set (split_ws (toLowerCase q)). synonym_expansion w)"
    by (auto simp: synonymCategories_def)
  have "filter (matches_search syn (toLowerCase q)) us = filter (claimed_match q) us"
    by (rule filter_cong) (simp_all add: matches_search_claimed [OF set])
  with assms(1) syn show ?thesis
    by (simp add: filteredUtilities_def search_filter_def category_filter_def)
qed

lemma filteredUtilities_scenario:
  "filteredUtilities [entity1, entity2] ''all'' ''bathroom'' = Inr [entity1]"
  by code_simp

text \<open>
  Claim C4 (filter and search semantics). The claim holds for every query that has no
  word naming a member of \<^verbatim>\<open>Object.prototype\<close> (lemma
  \<open>filteredUtilities_search_semantics\<close>), and the scenario gives entity 1 alone
  (lemma \<open>filteredUtilities_scenario\<close>). For the query \<^verbatim>\<open>constructor\<close> the
  lookup \<^verbatim>\<open>SEARCH_SYNONYMS[word]\<close> reads the inherited constructor, a function
  without \<^verbatim>\<open>forEach\<close>: the filter throws instead of returning a list, in the
  memo of the render and in \<^verbatim>\<open>handleSearch\<close>.
\<close>

theorem filteredUtilities_inherited_word_throws:
  "filteredUtilities [entity1, entity2] ''all'' ''constructor'' = Inl TypeError \<and>
   step (CommitSearch ''constructor'') mounted_state = Inl TypeError"
  by code_simp


section \<open>Claim about the marker images\<close>

lemma cache_ok_empty: "cache_ok Map.empty"
  by (simp add: cache_ok_def)

lemma getMarkerImage_consistent:
  assumes "cache_ok cache"
  shows "fst (getMarkerImage cache cat) = getMarkerImage_uncached cat \<and>
         cache_ok (snd (getMarkerImage cache cat))"
proof (cases "cache cat")
  case None
  with assms show ?thesis
    by (auto simp: getMarkerImage_def cache_ok_def Let_def)
next
  case (Some cached)
  with assms have "cached = getMarkerImage_uncached cat" by (simp add: cache_ok_def)
  with Some assms show ?thesis by (simp add: getMarkerImage_def)
qed

lemma getMarkerImages_consistent:
  assumes "cache_ok cache"
  shows "fst (getMarkerImages cache cats) = map getMarkerImage_uncached cats \<and>
         cache_ok (snd (getMarkerImages cache cats))"
  using assms
proof (induction cats arbitrary: cache)
  case Nil
  then show ?case by simp
next
  case (Cons c cs)
  from getMarkerImage_consistent [OF Cons.prems, of c]
  have h: "fst (getMarkerImage cache c) = getMarkerImage_uncached c"
    and ok: "cache_ok (snd (getMarkerImage cache c))" by simp_all
  from Cons.IH [OF ok] h show ?case
    by (simp add: case_prod_beta Let_def)
qed

lemma prefix_rule_amended:
  "prefix_rule lower =
     (if startsWith lower ''va_'' then Own (Asset ''marker_va_facility'')
      else if startsWith lower ''usda_'' then Own (Asset ''marker_usda'')
      else if health_center_variant lower then Own (Asset ''marker_health_center'')
      else if lower = ''safe_injection'' then Own (Asset ''marker_needle_exchange'')
      else if lower \<in> {''addiction_services'', ''suicide_prevention'', ''domestic_violence''}
           then Own (Asset ''marker_mental_health'')
      else Undefined)"
proof -
  have "js_get imageByCategory ''va_facility'' = Own (Asset ''marker_va_facility'')"
    "js_get imageByCategory ''usda'' = Own (Asset ''marker_usda'')"
    "js_get imageByCategory ''health_center'' = Own (Asset ''marker_health_center'')"
    "js_get imageByCategory ''needle_exchange'' = Own (Asset ''marker_needle_exchange'')"
    "js_get imageByCategory ''mental_health'' = Own (Asset ''marker_mental_health'')"
    by code_simp+
  then show ?thesis
    by (simp add: prefix_rule_def health_center_variant_def)
qed

lemma getMarkerImage_uncached_amended:
  assumes "normalize_category cat \<notin> set object_prototype_keys"
  shows "getMarkerImage_uncached cat = Icon (amended_image cat)"
proof (cases "map_of imageByCategory (normalize_category cat)")
  case None
  with assms have "js_get imageByCategory (normalize_category cat) = Undefined"
    by (simp add: js_get_def)
  with None show ?thesis
    unfolding getMarkerImage_uncached_def amended_image_def Let_def prefix_rule_amended
    by simp
next
  case (Some i)
  then have "js_get imageByCategory (normalize_category cat) = Own i"
    by (simp add: js_get_def)
  with Some show ?thesis
    by (simp add: getMarkerImage_uncached_def amended_image_def Let_def)
qed

text \<open>
  Claim C10, as stated, fails at the category \<^verbatim>\<open>safe_injection\<close>: it has no entry
  of its own and belongs to none of the VA, USDA and health-centre groups, so the claim
  gives it the default image; the source gives it the image of the needle exchange.
\<close>

theorem getMarkerImage_alias_counterexample:
  "fst (getMarkerImage Map.empty ''safe_injection'') = Icon (Asset ''marker_needle_exchange'') \<and>
   claimed_image ''safe_injection'' = defaultImage \<and>
   fst (getMarkerImage Map.empty ''safe_injection'') \<noteq> Icon (claimed_image ''safe_injection'')"
proof -
  have a: "getMarkerImage_uncached ''safe_injection'' = Icon (Asset ''marker_needle_exchange'')"
    by code_simp
  have b: "claimed_image ''safe_injection'' = defaultImage"
    by code_simp
  have c: "Asset ''marker_needle_exchange'' \<noteq> defaultImage"
    by (simp add: defaultImage_def)
  from a b c show ?thesis by (simp add: getMarkerImage_def Let_def)
qed

text \<open>
  Claim C10, amended (total, cache-consistent lookup). From the empty cache, every call
  in any sequence of calls returns what the body computes without the cache, so a
  repeated call returns what the first one did. For every category whose normalised
  name is not the name of a member of \<^verbatim>\<open>Object.prototype\<close> the result is an
  image: the exact entry, else the VA, USDA or health-centre image by the prefix rules,
  else the needle-exchange image for \<^verbatim>\<open>safe_injection\<close> and the mental-health
  image for \<^verbatim>\<open>addiction_services\<close>, \<^verbatim>\<open>suicide_prevention\<close> and
  \<^verbatim>\<open>domestic_violence\<close>, else the default image.
\<close>

theorem getMarkerImage_total_cache_consistent:
  "fst (getMarkerImages Map.empty cats) = map getMarkerImage_uncached cats \<and>
   (\<forall>cat \<in> set cats. normalize_category cat \<notin> set object_prototype_keys \<longrightarrow>
      getMarkerImage_uncached cat = Icon (amended_image cat))"
  using getMarkerImages_consistent [OF cache_ok_empty, of cats]
  by (simp add: getMarkerImage_uncached_amended)

theorem getMarkerImage_total_cache_consistent_witness:
  "fst (getMarkerImages Map.empty [''VA Medical-Center'', ''safe_injection'', ''VA Medical-Center'']) =
     [Icon (Asset ''marker_va_facility''), Icon (Asset ''marker_needle_exchange''),
      Icon (Asset ''marker_va_facility'')] \<and>
   normalize_category ''VA Medical-Center'' \<notin> set object_prototype_keys \<and>
   getMarkerImage_uncached ''VA Medical-Center'' = Icon (amended_image ''VA Medical-Center'')"
proof -
  have n: "normalize_category ''VA Medical-Center'' \<notin> set object_prototype_keys"
    by code_simp
  have v: "map getMarkerImage_uncached [''VA Medical-Center'', ''safe_injection'', ''VA Medical-Center''] =
     [Icon (Asset ''marker_va_facility''), Icon (Asset ''marker_needle_exchange''),
      Icon (Asset ''marker_va_facility'')]"
    by code_simp
  from getMarkerImage_total_cache_consistent
    [of "[''VA Medical-Center'', ''safe_injection'', ''VA Medical-Center'']"] n v
  show ?thesis by simp
qed

text \<open>
  For \<^verbatim>\<open>constructor\<close> the table lookup finds the inherited constructor, which is
  truthy, and the function returns it.
\<close>

lemma getMarkerImage_inherited_member:
  "fst (getMarkerImage Map.empty ''constructor'') = ProtoMember ''constructor''"
proof -
  have "getMarkerImage_uncached ''constructor'' = ProtoMember ''constructor''"
    by code_simp
  then show ?thesis by (simp add: getMarkerImage_def Let_def)
qed

section \<open>Claims about the preloader and the mount gate\<close>

lemma allSettled_settles: "\<forall>p \<in> set ps. p \<noteq> Pending \<Longrightarrow> allSettled ps = Fulfilled"
  by (auto simp: allSettled_def)

text \<open>
  Claim C5 (preloader readiness). When the native preloader is missing or its call
  rejects, and the screen is still mounted, the effect issues one
  \<^verbatim>\<open>Image.prefetch\<close> per asset with a URI (per asset, when every asset has one)
  and, once each of these promises has settled, fulfilled or rejected in any number,
  sets \<^verbatim>\<open>imagesCached\<close> to true.
\<close>

theorem preload_fallback_resolves:
  assumes "MarkerIconPreloader h = None \<or> MarkerIconPreloader h = Some Rejected"
      and "\<forall>uri \<in> set (List.map_filter (resolveAssetSource h) assets). prefetch h uri \<noteq> Pending"
      and "\<not> cancelled"
  shows "preload assets h cancelled =
           Some (List.map_filter (resolveAssetSource h) assets, True) \<and>
         imagesCached (preload_done assets h cancelled s) \<and>
         ((\<forall>a \<in> set assets. resolveAssetSource h a \<noteq> None) \<longrightarrow>
            length (List.map_filter (resolveAssetSource h) assets) = length assets)"
proof -
  let ?uris = "List.map_filter (resolveAssetSource h) assets"
  from assms(2) have "allSettled (map (prefetch h) ?uris) = Fulfilled"
    by (intro allSettled_settles) auto
  with assms(1,3) have p: "preload assets h cancelled = Some (?uris, True)"
    by (auto simp: preload_def Let_def)
  have "length ?uris = length assets" if "\<forall>a \<in> set assets. resolveAssetSource h a \<noteq> None"
  proof -
    from that have "filter (\<lambda>a. resolveAssetSource h a \<noteq> None) assets = assets"
      by (intro filter_True) auto
    then show ?thesis by (simp add: List.map_filter_def)
  qed
  with p show ?thesis by (simp add: preload_done_def)
qed

theorem preload_fallback_resolves_witness:
  "MarkerIconPreloader flaky_host = Some Rejected \<and>
   map (prefetch flaky_host) (List.map_filter (resolveAssetSource flaky_host) three_assets) =
     [Rejected, Rejected, Fulfilled] \<and>
   preload three_assets flaky_host False =
     Some ([''asset:/marker_water'', ''asset:/marker_restroom'', ''asset:/marker_default''], True) \<and>
   imagesCached (preload_done three_assets flaky_host False (plain_initial [entity1, entity2]))"
proof -
  have m: "MarkerIconPreloader flaky_host = None \<or> MarkerIconPreloader flaky_host = Some Rejected"
    by (simp add: flaky_host_def)
  have u: "List.map_filter (resolveAssetSource flaky_host) three_assets =
      [''asset:/marker_water'', ''asset:/marker_restroom'', ''asset:/marker_default'']"
    by (simp add: flaky_host_def three_assets_def defaultImage_def List.map_filter_def)
  have o: "map (prefetch flaky_host) (List.map_filter (resolveAssetSource flaky_host) three_assets) =
     [Rejected, Rejected, Fulfilled]"
    unfolding u by (simp add: flaky_host_def)
  have s: "\<forall>uri \<in> set (List.map_filter (resolveAssetSource flaky_host) three_assets).
      prefetch flaky_host uri \<noteq> Pending"
    unfolding u by (simp add: flaky_host_def)
  have c: "\<not> False" by simp
  from preload_fallback_resolves [OF m s c, of "plain_initial [entity1, entity2]"] u o
  show ?thesis by (simp add: flaky_host_def)
qed






section \<open>Claim about a failed fetch\<close>

text \<open>
  Claim C7, as stated, fails: after the statewide call and the nearby fallback have both
  rejected, the store is what it was, and its error flag is still unset.
\<close>

theorem fetchAllUtilities_no_error_flag:
  "fetchAllUtilities failing_api None (Some (47.6, -122.3)) (False, bundled_store) =
     Inr (False, bundled_store) \<and>
   error bundled_store = None"
  by (simp add: fetchAllUtilities_def failing_api_def bundled_store_def setLoading_def)

text \<open>
  Claim C7, amended (a failed fetch keeps the entities). When the statewide call rejects
  and the nearby fallback rejects or has no location to ask for,
  \<^verbatim>\<open>fetchAllUtilities\<close> leaves no exception, releases its guard, clears the
  loading flag and leaves the entities and the error flag of the store as they were.
  The action of the store that sets the error flag on a rejection, and keeps the
  entities, is \<^verbatim>\<open>fetchNearbyUtilities\<close>.
\<close>

theorem fetch_failure_keeps_entities:
  assumes "\<not> fst st"
      and "getAllUtilities a = Rejects"
      and "\<forall>l. (loc = Some l \<or> loc = None \<and> currentLocation = Some l) \<longrightarrow>
             getNearbyUtilities a l = Rejects"
  shows "fetchAllUtilities a loc currentLocation st =
           Inr (False, (snd st)\<lparr>st_isLoading := False\<rparr>) \<and>
         (getNearbyUtilities a l = Rejects \<longrightarrow>
            fetchNearbyUtilities a l (snd st) =
              (snd st)\<lparr>error := Some ''Failed to fetch nearby utilities'', st_isLoading := False\<rparr>)"
  using assms
  by (auto simp: fetchAllUtilities_def fetchNearbyUtilities_def setLoading_def Let_def
      split: option.splits response.splits)

theorem fetch_failure_keeps_entities_witness:
  "\<not> fst (False, bundled_store) \<and> getAllUtilities failing_api = Rejects \<and>
   fetchAllUtilities failing_api None (Some (47.6, -122.3)) (False, bundled_store) =
     Inr (False, bundled_store) \<and>
   st_utilities bundled_store = [entity1, entity2] \<and>
   error (fetchNearbyUtilities failing_api (47.6, -122.3) bundled_store) =
     Some ''Failed to fetch nearby utilities'' \<and>
   st_utilities (fetchNearbyUtilities failing_api (47.6, -122.3) bundled_store) =
     [entity1, entity2]"
proof -
  have a: "\<not> fst (False, bundled_store)" by simp
  have b: "getAllUtilities failing_api = Rejects" by (simp add: failing_api_def)
  have c: "\<forall>l. (None = Some l \<or> None = None \<and> Some (47.6, -122.3) = Some l) \<longrightarrow>
             getNearbyUtilities failing_api l = Rejects"
    by (simp add: failing_api_def)
  have d: "getNearbyUtilities failing_api (47.6, -122.3) = Rejects" by (simp add: failing_api_def)
  from fetch_failure_keeps_entities [where st = "(False, bundled_store)" and a = failing_api
      and loc = None and currentLocation = "Some (47.6, -122.3)" and l = "(47.6, -122.3)", OF a b c]
    a b d
  show ?thesis by (simp add: bundled_store_def)
qed

end
